theory Spec2Isabelle
  imports Complex_Main
begin

section \<open>Data model of \<^verbatim>\<open>src/App.jsx\<close>\<close>

text \<open>
  The component keeps three pieces of React state (\<^verbatim>\<open>nodes\<close>, \<^verbatim>\<open>edges\<close>,
  \<^verbatim>\<open>selectedNodeId\<close>, plus the \<^verbatim>\<open>reactFlowInstance\<close> handle) and one
  module-level counter \<^verbatim>\<open>id\<close>. Every handler is modelled as a function from the state before
  the event to the state after it. A handler that can throw returns \<open>js_error + app_state\<close>;
  a thrown exception leaves the React state as it was.
\<close>

datatype js_error = TypeError

text \<open>
  An array slot. JavaScript arrays can be sparse: \<open>Hole\<close> is an index below \<^verbatim>\<open>length\<close>
  that holds no element (it reads as \<^verbatim>\<open>undefined\<close>, and \<^verbatim>\<open>filter\<close> skips it), while
  \<open>Undef\<close> is an element whose value is \<^verbatim>\<open>undefined\<close>. \<open>Obj\<close> is a field object such
  as \<^verbatim>\<open>{ type: 'String', name: 'age' }\<close>, a finite map from attribute names to strings.
  \<open>SStr\<close> is a string element; it only arises when a string is spread into an array.
\<close>

datatype slot = Hole | Undef | SStr string | Obj "string \<rightharpoonup> string"

fun is_hole :: "slot \<Rightarrow> bool" where
  "is_hole Hole = True"
| "is_hole e = False"

text \<open>
  The values stored under the keys of \<^verbatim>\<open>node.data\<close>. \<open>DArr xs\<close> is an array with the
  slots \<open>xs\<close>. \<open>DArrProps xs ps\<close> is an array with the slots \<open>xs\<close> that carries, besides
  its elements, ordinary (non-index) properties \<open>ps\<close>, keyed by the number that was used as
  the property name; it only arises from an assignment \<^verbatim>\<open>arr[i] = v\<close> whose \<open>i\<close> is too
  large to be an array index.
\<close>

datatype dval = DUndef | DStr string | DArr "slot list" | DArrProps "slot list" "nat \<rightharpoonup> slot"

record xy =
  pos_x :: real
  pos_y :: real

text \<open>
  A node \<^verbatim>\<open>{ id, type, position, data }\<close>. \<^verbatim>\<open>data\<close> is a JavaScript object, that is a
  map from keys to values (\<^verbatim>\<open>label\<close> and \<^verbatim>\<open>fields\<close> in this program).
\<close>

record node =
  node_id :: string
  node_type :: string
  position :: xy
  data :: "string \<rightharpoonup> dval"

record edge =
  source :: string
  target :: string

record app_state =
  nodes :: "node list"
  edges :: "edge list"
  reactFlowInstance :: "(xy \<Rightarrow> xy) option"
  selectedNodeId :: "string option"
  id_counter :: nat

section \<open>The Graph State Store: \<^verbatim>\<open>updateNodeData\<close>\<close>

text \<open>
  \<^verbatim>\<open>nds.map((node) => node.id === nodeId ? { ...node, data: { ...node.data, ...newData } } : node)\<close>.
  The argument \<^verbatim>\<open>nodeId\<close> is \<^verbatim>\<open>selectedNodeId\<close>, a string or \<^verbatim>\<open>null\<close>; strict
  equality with a node's string id is false for \<^verbatim>\<open>null\<close>. The object spread
  \<^verbatim>\<open>{ ...node.data, ...newData }\<close> is the right-biased union of the two key sets.
\<close>

definition updateNode :: "string option \<Rightarrow> (string \<rightharpoonup> dval) \<Rightarrow> node \<Rightarrow> node" where
  "updateNode nodeId newData n =
     (if Some (node_id n) = nodeId then n\<lparr>data := data n ++ newData\<rparr> else n)"

definition updateNodeData :: "string option \<Rightarrow> (string \<rightharpoonup> dval) \<Rightarrow> app_state \<Rightarrow> app_state" where
  "updateNodeData nodeId newData s = s\<lparr>nodes := map (updateNode nodeId newData) (nodes s)\<rparr>"

section \<open>The Identity Generator: \<^verbatim>\<open>let id = 2; const getId = () => `${id++}`\<close>\<close>

text \<open>
  The decimal numeral of a natural number, which is what a template literal prints for a
  non-negative integer below \<open>10\<^sup>2\<^sup>1\<close>.
\<close>

definition digit_char :: "nat \<Rightarrow> char" where
  "digit_char d = char_of (48 + d)"

fun dec :: "nat \<Rightarrow> string" where
  "dec n = (if n < 10 then [digit_char n] else dec (n div 10) @ [digit_char (n mod 10)])"

declare dec.simps [simp del]

text \<open>
  The counter is a JavaScript number, an IEEE-754 double. It starts at 2 and only ever
  grows by \<^verbatim>\<open>id++\<close>. Adding 1 is exact up to \<open>2\<^sup>5\<^sup>3\<close>; at \<open>2\<^sup>5\<^sup>3\<close> the sum
  \<open>2\<^sup>5\<^sup>3 + 1\<close> is not representable and rounds (ties to even) back to \<open>2\<^sup>5\<^sup>3\<close>, so the
  counter stays there. The counter therefore never leaves the range \<open>2 .. 2\<^sup>5\<^sup>3\<close>, on
  which \<open>number_succ\<close> is the double's successor.
\<close>

definition MAX_SAFE_INTEGER :: nat where
  "MAX_SAFE_INTEGER = 2 ^ 53 - 1"

definition number_succ :: "nat \<Rightarrow> nat" where
  "number_succ c = (if c \<le> MAX_SAFE_INTEGER then c + 1 else c)"

text \<open>\<^verbatim>\<open>getId\<close> returns the numeral of the counter and the counter after \<^verbatim>\<open>id++\<close>.\<close>

definition getId :: "nat \<Rightarrow> string \<times> nat" where
  "getId c = (dec c, number_succ c)"

text \<open>The strings returned by \<open>n\<close> successive calls, the counter being \<open>c\<close> before the first.\<close>

fun getIds :: "nat \<Rightarrow> nat \<Rightarrow> string list" where
  "getIds 0 c = []"
| "getIds (Suc n) c = (case getId c of (s, c') \<Rightarrow> s # getIds n c')"

text \<open>A decimal numeral read back as an integer (the claim's "interpreted as integers").\<close>

definition digit_val :: "char \<Rightarrow> nat" where
  "digit_val ch = of_char ch - 48"

definition parse_dec :: "string \<Rightarrow> nat" where
  "parse_dec cs = foldl (\<lambda>acc ch. 10 * acc + digit_val ch) 0 cs"

section \<open>Initial state\<close>

definition initialNodes :: "node list" where
  "initialNodes =
     [\<lparr>node_id = ''1'', node_type = ''concerto'',
       position = \<lparr>pos_x = 250, pos_y = 100\<rparr>,
       data = [''label'' \<mapsto> DStr ''Person'',
               ''fields'' \<mapsto> DArr
                 [Obj [''type'' \<mapsto> ''String'', ''name'' \<mapsto> ''firstName''],
                  Obj [''type'' \<mapsto> ''String'', ''name'' \<mapsto> ''lastName''],
                  Obj [''type'' \<mapsto> ''Integer'', ''name'' \<mapsto> ''age'']]]\<rparr>]"

definition initial_state :: app_state where
  "initial_state =
     \<lparr>nodes = initialNodes, edges = [], reactFlowInstance = None,
      selectedNodeId = None, id_counter = 2\<rparr>"

text \<open>\<^verbatim>\<open>onInit={setReactFlowInstance}\<close>\<close>

definition onInit :: "(xy \<Rightarrow> xy) \<Rightarrow> app_state \<Rightarrow> app_state" where
  "onInit inst s = s\<lparr>reactFlowInstance := Some inst\<rparr>"

section \<open>Connections, drops and the Selection Tracker\<close>

text \<open>
  \<^verbatim>\<open>onConnect = (params) => setEdges((eds) => addEdge(params, eds))\<close>. \<^verbatim>\<open>addEdge\<close> is
  imported from the \<^verbatim>\<open>reactflow\<close> package; its code is not part of this program, so it is a
  parameter here.
\<close>

definition onConnect :: "('c \<Rightarrow> edge list \<Rightarrow> edge list) \<Rightarrow> 'c \<Rightarrow> app_state \<Rightarrow> app_state" where
  "onConnect addEdge params s = s\<lparr>edges := addEdge params (edges s)\<rparr>"

text \<open>
  What \<^verbatim>\<open>onDrop\<close> reads from the event: the drag payload
  (\<^verbatim>\<open>dataTransfer.getData('application/reactflow')\<close>, the empty string when there is none)
  and the pointer position.
\<close>

record drop_event =
  payload :: string
  clientX :: real
  clientY :: real

text \<open>
  \<^verbatim>\<open>onDrop\<close>: an empty payload is falsy and the handler returns at once. Otherwise
  \<^verbatim>\<open>reactFlowInstance.screenToFlowPosition(...)\<close> is evaluated first, which throws when the
  instance is still \<^verbatim>\<open>null\<close>; only then \<^verbatim>\<open>getId()\<close> is called, the node is appended
  and selected.
\<close>

definition onDrop :: "drop_event \<Rightarrow> app_state \<Rightarrow> js_error + app_state" where
  "onDrop event s =
     (if payload event = [] then Inr s
      else case reactFlowInstance s of
        None \<Rightarrow> Inl TypeError
      | Some screenToFlowPosition \<Rightarrow>
          (case getId (id_counter s) of (newId, c') \<Rightarrow>
             let newNode =
                   \<lparr>node_id = newId, node_type = ''concerto'',
                    position = screenToFlowPosition \<lparr>pos_x = clientX event, pos_y = clientY event\<rparr>,
                    data = [''label'' \<mapsto> DStr (''New '' @ payload event),
                            ''fields'' \<mapsto> DArr []]\<rparr>
             in Inr (s\<lparr>nodes := nodes s @ [newNode],
                       selectedNodeId := Some (node_id newNode),
                       id_counter := c'\<rparr>)))"

text \<open>
  A sequence of drop events, handled one after the other. An event whose handler throws
  changes nothing, and the next event is handled in the same state.
\<close>

fun drops :: "drop_event list \<Rightarrow> app_state \<Rightarrow> app_state" where
  "drops [] s = s"
| "drops (e # es) s = (case onDrop e s of Inl err \<Rightarrow> drops es s | Inr s' \<Rightarrow> drops es s')"

definition onNodeClick :: "node \<Rightarrow> app_state \<Rightarrow> app_state" where
  "onNodeClick n s = s\<lparr>selectedNodeId := Some (node_id n)\<rparr>"

definition onPaneClick :: "app_state \<Rightarrow> app_state" where
  "onPaneClick s = s\<lparr>selectedNodeId := None\<rparr>"

text \<open>\<^verbatim>\<open>const selectedNode = nodes.find((n) => n.id === selectedNodeId)\<close>\<close>

definition selectedNode :: "app_state \<Rightarrow> node option" where
  "selectedNode s = find (\<lambda>n. Some (node_id n) = selectedNodeId s) (nodes s)"

section \<open>JavaScript arrays and objects, as far as the handlers use them\<close>

text \<open>Reading a property of an object: a missing key reads as \<^verbatim>\<open>undefined\<close>.\<close>

definition get_prop :: "(string \<rightharpoonup> dval) \<Rightarrow> string \<Rightarrow> dval" where
  "get_prop ob k = (case ob k of None \<Rightarrow> DUndef | Some v \<Rightarrow> v)"

text \<open>Truthiness: \<^verbatim>\<open>undefined\<close> and the empty string are falsy, every array is truthy.\<close>

fun truthy :: "dval \<Rightarrow> bool" where
  "truthy DUndef = False"
| "truthy (DStr str) = (str \<noteq> [])"
| "truthy (DArr xs) = True"
| "truthy (DArrProps xs ps) = True"

text \<open>The array iterator yields \<^verbatim>\<open>undefined\<close> for a hole, so a spread copy is dense.\<close>

definition spread_array :: "slot list \<Rightarrow> slot list" where
  "spread_array xs = map (\<lambda>e. if is_hole e then Undef else e) xs"

text \<open>
  \<^verbatim>\<open>[...v]\<close>: \<^verbatim>\<open>undefined\<close> is not iterable, a string iterates over its characters,
  an array over its slots (its ordinary properties are not iterated).
\<close>

fun spread :: "dval \<Rightarrow> js_error + slot list" where
  "spread DUndef = Inl TypeError"
| "spread (DStr str) = Inr (map (\<lambda>ch. SStr [ch]) str)"
| "spread (DArr xs) = Inr (spread_array xs)"
| "spread (DArrProps xs ps) = Inr (spread_array xs)"

text \<open>
  \<^verbatim>\<open>arr[i]\<close> on an array without ordinary properties (a fresh spread copy): a hole and
  an index past the end both read as \<^verbatim>\<open>undefined\<close>.
\<close>

definition array_get :: "slot list \<Rightarrow> nat \<Rightarrow> slot" where
  "array_get xs i = (if i < length xs then (if is_hole (xs ! i) then Undef else xs ! i) else Undef)"

text \<open>
  The array indices are the integers \<open>0 .. 2\<^sup>3\<^sup>2 - 2\<close>; an array's length is at most
  \<open>2\<^sup>3\<^sup>2 - 1\<close>, so every index below the length is an array index.
\<close>

definition array_index_limit :: nat where
  "array_index_limit = 2 ^ 32 - 1"

text \<open>
  \<^verbatim>\<open>arr[i] = v\<close> on an array without ordinary properties: within the length the slot is
  overwritten; past the end, when \<open>i\<close> is an array index, the array grows to length
  \<open>i + 1\<close> and the indices in between are holes; when \<open>i\<close> is \<open>2\<^sup>3\<^sup>2 - 1\<close> or more
  it is not an array index, the assignment adds an ordinary property and the elements
  and the length stay as they are.
\<close>

definition array_set :: "slot list \<Rightarrow> nat \<Rightarrow> slot \<Rightarrow> dval" where
  "array_set xs i v =
     (if i < length xs then DArr (xs[i := v])
      else if i < array_index_limit then DArr (xs @ replicate (i - length xs) Hole @ [v])
      else DArrProps xs [i \<mapsto> v])"

text \<open>
  \<^verbatim>\<open>{ ...e }\<close>: spreading \<^verbatim>\<open>undefined\<close> copies nothing, spreading an object copies
  its attributes, spreading a string copies its characters under the keys \<^verbatim>\<open>"0"\<close>,
  \<^verbatim>\<open>"1"\<close>, ...
\<close>

fun spread_obj :: "slot \<Rightarrow> (string \<rightharpoonup> string)" where
  "spread_obj Hole = Map.empty"
| "spread_obj Undef = Map.empty"
| "spread_obj (SStr str) = map_of (zip (map dec [0..<length str]) (map (\<lambda>ch. [ch]) str))"
| "spread_obj (Obj attrs) = attrs"

text \<open>
  \<^verbatim>\<open>arr.filter((_, i) => p(i))\<close>: the indices are visited in order, the callback is not
  called for a hole, and the elements for which it returns true are collected. \<open>filter_from k\<close>
  is the loop from index \<open>k\<close> on.
\<close>

fun filter_from :: "nat \<Rightarrow> (nat \<Rightarrow> bool) \<Rightarrow> slot list \<Rightarrow> slot list" where
  "filter_from k p [] = []"
| "filter_from k p (e # es) =
     (if \<not> is_hole e \<and> p k then e # filter_from (Suc k) p es else filter_from (Suc k) p es)"

definition array_filter :: "(nat \<Rightarrow> bool) \<Rightarrow> slot list \<Rightarrow> slot list" where
  "array_filter p xs = filter_from 0 p xs"

section \<open>The Entity Mutation Protocol\<close>

text \<open>
  The \<^verbatim>\<open>index\<close> argument of \<^verbatim>\<open>onUpdateField\<close> and \<^verbatim>\<open>onRemoveField\<close> is an array
  index, a natural number; \<^verbatim>\<open>key\<close> and \<^verbatim>\<open>value\<close> are strings.
\<close>

text \<open>\<^verbatim>\<open>onNameChange\<close> has no guard: it calls \<^verbatim>\<open>updateNodeData\<close> with whatever is selected.\<close>

definition onNameChange :: "string \<Rightarrow> app_state \<Rightarrow> app_state" where
  "onNameChange newName s = updateNodeData (selectedNodeId s) [''label'' \<mapsto> DStr newName] s"

definition newProp :: slot where
  "newProp = Obj [''type'' \<mapsto> ''String'', ''name'' \<mapsto> ''newProp'']"

text \<open>\<^verbatim>\<open>[...(selectedNode.data.fields || []), { type: 'String', name: 'newProp' }]\<close>\<close>

definition onAddField :: "app_state \<Rightarrow> js_error + app_state" where
  "onAddField s =
     (case selectedNode s of
        None \<Rightarrow> Inr s
      | Some n \<Rightarrow>
          (let fs = get_prop (data n) ''fields'' in
           case spread (if truthy fs then fs else DArr []) of
             Inl err \<Rightarrow> Inl err
           | Inr copy \<Rightarrow>
               Inr (updateNodeData (selectedNodeId s) [''fields'' \<mapsto> DArr (copy @ [newProp])] s)))"

text \<open>
  \<^verbatim>\<open>const newFields = [...selectedNode.data.fields];\<close>
  \<^verbatim>\<open>newFields[index] = { ...newFields[index], [key]: value };\<close>
\<close>

definition onUpdateField :: "nat \<Rightarrow> string \<Rightarrow> string \<Rightarrow> app_state \<Rightarrow> js_error + app_state" where
  "onUpdateField index key val s =
     (case selectedNode s of
        None \<Rightarrow> Inr s
      | Some n \<Rightarrow>
          (case spread (get_prop (data n) ''fields'') of
             Inl err \<Rightarrow> Inl err
           | Inr newFields \<Rightarrow>
               Inr (updateNodeData (selectedNodeId s)
                      [''fields'' \<mapsto> array_set newFields index
                          (Obj ((spread_obj (array_get newFields index))(key \<mapsto> val)))] s)))"

text \<open>
  \<^verbatim>\<open>selectedNode.data.fields.filter((_, i) => i !== index)\<close>: only an array has a
  \<^verbatim>\<open>filter\<close> method, so the call throws on \<^verbatim>\<open>undefined\<close> and on a string. The
  result is a new array of the elements kept; ordinary properties are not copied.
\<close>

definition onRemoveField :: "nat \<Rightarrow> app_state \<Rightarrow> js_error + app_state" where
  "onRemoveField index s =
     (case selectedNode s of
        None \<Rightarrow> Inr s
      | Some n \<Rightarrow>
          (case get_prop (data n) ''fields'' of
             DUndef \<Rightarrow> Inl TypeError
           | DStr str \<Rightarrow> Inl TypeError
           | DArr xs \<Rightarrow>
               Inr (updateNodeData (selectedNodeId s)
                      [''fields'' \<mapsto> DArr (array_filter (\<lambda>i. i \<noteq> index) xs)] s)
           | DArrProps xs ps \<Rightarrow>
               Inr (updateNodeData (selectedNodeId s)
                      [''fields'' \<mapsto> DArr (array_filter (\<lambda>i. i \<noteq> index) xs)] s)))"

text \<open>The field sequence of the selected node: \<^verbatim>\<open>selectedNode.data.fields\<close>.\<close>

definition selected_fields :: "app_state \<Rightarrow> dval option" where
  "selected_fields s = map_option (\<lambda>n. get_prop (data n) ''fields'') (selectedNode s)"

section \<open>The events of the user interface\<close>

text \<open>
  The handlers are closures of the component; they run only when the interface calls them.
  React Flow calls \<^verbatim>\<open>onInit\<close>, \<^verbatim>\<open>onConnect\<close>, \<^verbatim>\<open>onDrop\<close>, \<^verbatim>\<open>onNodeClick\<close> (with one
  of the rendered nodes) and \<^verbatim>\<open>onPaneClick\<close>. The properties panel is rendered only when
  \<^verbatim>\<open>selectedNode\<close> is truthy: the name input calls \<^verbatim>\<open>onNameChange\<close>, the button calls
  \<^verbatim>\<open>onAddField\<close>, and \<^verbatim>\<open>selectedNode.data.fields.map((field, index) => ...)\<close> renders
  one row per element of the selected node's field array, whose controls call
  \<^verbatim>\<open>onUpdateField(index, ...)\<close> and \<^verbatim>\<open>onRemoveField(index)\<close> with the index of that row
  (\<^verbatim>\<open>map\<close> makes no row for an empty slot). React renders again after every event.
\<close>

datatype ui_event =
    Init "xy \<Rightarrow> xy"
  | Connect edge
  | Drop drop_event
  | NodeClick nat
  | PaneClick
  | NameChange string
  | AddField
  | UpdateField nat string string
  | RemoveField nat

text \<open>Whether the panel shows a row for index \<open>i\<close>.\<close>

definition row_rendered :: "app_state \<Rightarrow> nat \<Rightarrow> bool" where
  "row_rendered s i =
     (case selected_fields s of
        Some (DArr xs) \<Rightarrow> i < length xs \<and> \<not> is_hole (xs ! i)
      | Some (DArrProps xs ps) \<Rightarrow> i < length xs \<and> \<not> is_hole (xs ! i)
      | _ \<Rightarrow> False)"

text \<open>The state after a handler has run: a handler that throws leaves the state as it was.\<close>

definition after :: "app_state \<Rightarrow> js_error + app_state \<Rightarrow> app_state" where
  "after s r = (case r of Inl err \<Rightarrow> s | Inr s' \<Rightarrow> s')"

text \<open>
  One event: \<open>None\<close> when the interface cannot produce the event in this state (no such
  node, panel or row), otherwise the state after the handler. \<open>NodeClick k\<close> is a click
  on the \<open>k\<close>-th node of the collection. \<^verbatim>\<open>addEdge\<close> is the library function that
  \<^verbatim>\<open>onConnect\<close> calls.
\<close>

fun ui_step :: "(edge \<Rightarrow> edge list \<Rightarrow> edge list) \<Rightarrow> ui_event \<Rightarrow> app_state \<Rightarrow> app_state option" where
  "ui_step addEdge (Init inst) s = Some (onInit inst s)"
| "ui_step addEdge (Connect params) s = Some (onConnect addEdge params s)"
| "ui_step addEdge (Drop ev) s = Some (after s (onDrop ev s))"
| "ui_step addEdge (NodeClick k) s =
     (if k < length (nodes s) then Some (onNodeClick (nodes s ! k) s) else None)"
| "ui_step addEdge PaneClick s = Some (onPaneClick s)"
| "ui_step addEdge (NameChange newName) s =
     (case selectedNode s of None \<Rightarrow> None | Some n \<Rightarrow> Some (onNameChange newName s))"
| "ui_step addEdge AddField s =
     (case selectedNode s of None \<Rightarrow> None | Some n \<Rightarrow> Some (after s (onAddField s)))"
| "ui_step addEdge (UpdateField index key val) s =
     (if row_rendered s index then Some (after s (onUpdateField index key val s)) else None)"
| "ui_step addEdge (RemoveField index) s =
     (if row_rendered s index then Some (after s (onRemoveField index s)) else None)"

text \<open>A sequence of events, one after the other.\<close>

fun ui_run :: "(edge \<Rightarrow> edge list \<Rightarrow> edge list) \<Rightarrow> ui_event list \<Rightarrow> app_state \<Rightarrow> app_state option" where
  "ui_run addEdge [] s = Some s"
| "ui_run addEdge (e # es) s =
     (case ui_step addEdge e s of None \<Rightarrow> None | Some s' \<Rightarrow> ui_run addEdge es s')"

text \<open>
  The invariant of the states the interface reaches: the \<^verbatim>\<open>fields\<close> of every node is an
  array without empty slots and without ordinary properties.
\<close>

definition dense_node :: "node \<Rightarrow> bool" where
  "dense_node n =
     (case get_prop (data n) ''fields'' of
        DArr xs \<Rightarrow> list_all (\<lambda>e. \<not> is_hole e) xs
      | _ \<Rightarrow> False)"

definition dense_fields :: "app_state \<Rightarrow> bool" where
  "dense_fields s = list_all dense_node (nodes s)"

text \<open>
  What the claims compare before and after an operation: the identity of every node
  (\<^verbatim>\<open>id\<close> and \<^verbatim>\<open>type\<close>, in order), and everything else of every node but the data
  keys in \<open>K\<close>.
\<close>

abbreviation identities :: "app_state \<Rightarrow> (string \<times> string) list" where
  "identities s \<equiv> map (\<lambda>n. (node_id n, node_type n)) (nodes s)"

abbreviation rest_outside :: "string set \<Rightarrow> app_state \<Rightarrow> (xy \<times> (string \<rightharpoonup> dval)) list" where
  "rest_outside K s \<equiv> map (\<lambda>n. (position n, data n |` (- K))) (nodes s)"

section \<open>Two concrete states\<close>

text \<open>
  \<open>demo_state\<close> is the state after start-up, \<^verbatim>\<open>onInit\<close> and one drop of a "Concept" at
  (100, 100), with a \<^verbatim>\<open>screenToFlowPosition\<close> that is the identity: the seed node "1" and
  the new, selected node "2". \<open>sparse_state\<close> is \<open>demo_state\<close> after a direct call
  \<^verbatim>\<open>onUpdateField(1, 'name', 'x')\<close>, which the panel does not make (node "2" has no row 1):
  node "2" has the field array \<^verbatim>\<open>[ <empty>, {name: 'x'} ]\<close>. Both are shown below to be
  what the handlers return.
\<close>

definition demo_state :: app_state where
  "demo_state =
     \<lparr>nodes = initialNodes @
        [\<lparr>node_id = ''2'', node_type = ''concerto'',
          position = \<lparr>pos_x = 100, pos_y = 100\<rparr>,
          data = [''label'' \<mapsto> DStr ''New Concept'', ''fields'' \<mapsto> DArr []]\<rparr>],
      edges = [], reactFlowInstance = Some (\<lambda>p. p),
      selectedNodeId = Some ''2'', id_counter = 3\<rparr>"

definition sparse_state :: app_state where
  "sparse_state =
     updateNodeData (Some ''2'') [''fields'' \<mapsto> DArr [Hole, Obj [''name'' \<mapsto> ''x'']]] demo_state"

section \<open>Properties of \<^verbatim>\<open>updateNodeData\<close>\<close>

lemma length_updateNodeData [simp]:
  "length (nodes (updateNodeData x d s)) = length (nodes s)"
  by (simp add: updateNodeData_def)

lemma nth_updateNodeData:
  "i < length (nodes s) \<Longrightarrow>
   nodes (updateNodeData x d s) ! i = updateNode x d (nodes s ! i)"
  by (simp add: updateNodeData_def)

lemma updateNodeData_rest [simp]:
  "edges (updateNodeData x d s) = edges s"
  "reactFlowInstance (updateNodeData x d s) = reactFlowInstance s"
  "selectedNodeId (updateNodeData x d s) = selectedNodeId s"
  "id_counter (updateNodeData x d s) = id_counter s"
  by (simp_all add: updateNodeData_def)

lemma updateNode_identity [simp]:
  "node_id (updateNode x d n) = node_id n"
  "node_type (updateNode x d n) = node_type n"
  "position (updateNode x d n) = position n"
  by (simp_all add: updateNode_def)

lemma updateNodeData_no_match:
  "\<forall>n \<in> set (nodes s). Some (node_id n) \<noteq> x \<Longrightarrow> updateNodeData x d s = s"
proof -
  assume a: "\<forall>n \<in> set (nodes s). Some (node_id n) \<noteq> x"
  have "map (updateNode x d) (nodes s) = map (\<lambda>n. n) (nodes s)"
    by (rule map_cong) (use a in \<open>auto simp: updateNode_def\<close>)
  then show ?thesis by (simp add: updateNodeData_def)
qed

lemma find_map_stable:
  "(\<And>n. P (f n) = P n) \<Longrightarrow> find P (map f ns) = map_option f (find P ns)"
  by (induction ns) simp_all

lemma selectedNode_updateNodeData:
  "selectedNode (updateNodeData x d s) = map_option (updateNode x d) (selectedNode s)"
  unfolding selectedNode_def updateNodeData_def
  by (simp add: find_map_stable)

lemma selectedNode_id:
  "selectedNode s = Some n \<Longrightarrow> selectedNodeId s = Some (node_id n)"
  by (auto simp: selectedNode_def find_Some_iff)

lemma selectedNode_unselected:
  "selectedNodeId s = None \<Longrightarrow> selectedNode s = None"
  by (simp add: selectedNode_def find_None_iff)

lemma selected_fields_update:
  "selectedNode s = Some n \<Longrightarrow>
   selected_fields (updateNodeData (selectedNodeId s) [''fields'' \<mapsto> v] s) = Some v"
  by (frule selectedNode_id)
     (simp add: selected_fields_def selectedNode_updateNodeData updateNode_def get_prop_def)

lemma selected_fields_D:
  "selected_fields s = Some v \<Longrightarrow>
   \<exists>n. selectedNode s = Some n \<and> get_prop (data n) ''fields'' = v"
  by (auto simp: selected_fields_def)

subsection \<open>The concrete states are reachable\<close>

lemma dec_small [simp]: "dec 1 = ''1''" "dec 2 = ''2''" "dec 3 = ''3''" "dec 4 = ''4''"
  by code_simp+

lemma number_succ_safe: "c \<le> MAX_SAFE_INTEGER \<Longrightarrow> number_succ c = c + 1"
  by (simp add: number_succ_def)

lemma small_le_MAX_SAFE_INTEGER [simp]:
  "2 \<le> MAX_SAFE_INTEGER" "3 \<le> MAX_SAFE_INTEGER" "4 \<le> MAX_SAFE_INTEGER"
  by (simp_all add: MAX_SAFE_INTEGER_def)


lemma selectedNode_demo_state:
  "selectedNode demo_state = Some (nodes demo_state ! 1)"
  by (simp add: selectedNode_def demo_state_def initialNodes_def)

lemma selected_fields_demo_state: "selected_fields demo_state = Some (DArr [])"
  by (simp add: selected_fields_def selectedNode_demo_state)
     (simp add: demo_state_def initialNodes_def get_prop_def)

lemma sparse_state_reached:
  "onUpdateField 1 ''name'' ''x'' demo_state = Inr sparse_state"
  by (simp add: onUpdateField_def selectedNode_demo_state sparse_state_def)
     (simp add: demo_state_def initialNodes_def get_prop_def spread_array_def array_set_def
        array_get_def array_index_limit_def)

lemma selected_fields_sparse_state:
  "selected_fields sparse_state = Some (DArr [Hole, Obj [''name'' \<mapsto> ''x'']])"
proof -
  have "selectedNodeId demo_state = Some ''2''" by (simp add: demo_state_def)
  with selected_fields_update [OF selectedNode_demo_state] show ?thesis
    by (simp add: sparse_state_def)
qed

section \<open>Claims about the Graph State Store\<close>

text \<open>
  Claim C1. For every call \<^verbatim>\<open>updateNodeData(nodeId, d)\<close> the node collection keeps its
  length and order. At every index \<open>i\<close>: if the node there has the id \<open>nodeId\<close>, then
  afterwards each key of \<open>d\<close> holds the value \<open>d\<close> gives it (the whole value, also for
  \<^verbatim>\<open>fields\<close>: nothing is merged below the top level), each key that \<open>d\<close> omits holds
  what it held before, and id, type and position are the same; if the node has another id,
  it is equal to what it was before the call. Edges, selection and the id counter are
  untouched.
\<close>

theorem updateNodeData_shallow_merge:
  assumes "i < length (nodes s)"
  shows "length (nodes (updateNodeData nodeId d s)) = length (nodes s) \<and>
   (Some (node_id (nodes s ! i)) = nodeId \<longrightarrow>
      (\<forall>k. data (nodes (updateNodeData nodeId d s) ! i) k =
             (case d k of Some v \<Rightarrow> Some v | None \<Rightarrow> data (nodes s ! i) k)) \<and>
      node_id (nodes (updateNodeData nodeId d s) ! i) = node_id (nodes s ! i) \<and>
      node_type (nodes (updateNodeData nodeId d s) ! i) = node_type (nodes s ! i) \<and>
      position (nodes (updateNodeData nodeId d s) ! i) = position (nodes s ! i)) \<and>
   (Some (node_id (nodes s ! i)) \<noteq> nodeId \<longrightarrow>
      nodes (updateNodeData nodeId d s) ! i = nodes s ! i) \<and>
   edges (updateNodeData nodeId d s) = edges s \<and>
   selectedNodeId (updateNodeData nodeId d s) = selectedNodeId s \<and>
   id_counter (updateNodeData nodeId d s) = id_counter s"
  using assms
  by (auto simp: nth_updateNodeData updateNode_def map_add_def split: option.splits)

theorem updateNodeData_shallow_merge_witness:
  "data (nodes (updateNodeData (Some ''2'') [''label'' \<mapsto> DStr ''Car''] demo_state) ! 1) ''label''
     = Some (DStr ''Car'') \<and>
   data (nodes (updateNodeData (Some ''2'') [''label'' \<mapsto> DStr ''Car''] demo_state) ! 1) ''fields''
     = Some (DArr []) \<and>
   nodes (updateNodeData (Some ''2'') [''label'' \<mapsto> DStr ''Car''] demo_state) ! 0
     = nodes demo_state ! 0"
proof -
  let ?d = "[''label'' \<mapsto> DStr ''Car'']"
  let ?s' = "updateNodeData (Some ''2'') ?d demo_state"
  have len: "0 < length (nodes demo_state)" "1 < length (nodes demo_state)"
    by (simp_all add: demo_state_def initialNodes_def)
  have id0: "Some (node_id (nodes demo_state ! 0)) \<noteq> Some ''2''"
    by (simp add: demo_state_def initialNodes_def)
  have id1: "Some (node_id (nodes demo_state ! 1)) = Some ''2''"
    by (simp add: demo_state_def initialNodes_def)
  have old: "data (nodes demo_state ! 1) ''fields'' = Some (DArr [])"
    by (simp add: demo_state_def initialNodes_def)
  from updateNodeData_shallow_merge [OF len(2), of "Some ''2''" ?d] id1
  have merged: "\<forall>k. data (nodes ?s' ! 1) k =
      (case ?d k of Some v \<Rightarrow> Some v | None \<Rightarrow> data (nodes demo_state ! 1) k)"
    by blast
  from updateNodeData_shallow_merge [OF len(1), of "Some ''2''" ?d] id0
  have frame: "nodes ?s' ! 0 = nodes demo_state ! 0"
    by blast
  from merged [THEN spec, of "''label''"] merged [THEN spec, of "''fields''"] old frame
  show ?thesis by simp
qed

text \<open>
  Claim C2. \<^verbatim>\<open>updateNodeData\<close> is a total function with no error result, and when no
  node of the collection has the id \<open>nodeId\<close> (in particular when \<open>nodeId\<close> is
  \<^verbatim>\<open>null\<close>) the call returns the state it was given: the node collection, and
  everything else, is unchanged.
\<close>

theorem updateNodeData_stale_id_noop:
  "nodeId \<notin> Some ` node_id ` set (nodes s) \<Longrightarrow> updateNodeData nodeId d s = s"
  by (rule updateNodeData_no_match) auto

theorem updateNodeData_stale_id_noop_witness:
  "Some ''7'' \<notin> Some ` node_id ` set (nodes demo_state) \<and>
   updateNodeData (Some ''7'') [''label'' \<mapsto> DStr ''Car''] demo_state = demo_state"
proof -
  have h: "Some ''7'' \<notin> Some ` node_id ` set (nodes demo_state)"
    by (simp add: demo_state_def initialNodes_def)
  from h updateNodeData_stale_id_noop [OF h] show ?thesis by simp
qed

section \<open>Connections\<close>

text \<open>
  All that \<^verbatim>\<open>onConnect\<close> does itself is to hand the connection and the current edges to
  \<^verbatim>\<open>addEdge\<close> and store what it returns; whether an edge is appended, rejected or
  deduplicated is decided inside \<^verbatim>\<open>addEdge\<close>.
\<close>

lemma onConnect_delegates:
  "edges (onConnect addEdge params s) = addEdge params (edges s) \<and>
   nodes (onConnect addEdge params s) = nodes s \<and>
   selectedNodeId (onConnect addEdge params s) = selectedNodeId s \<and>
   id_counter (onConnect addEdge params s) = id_counter s"
  by (simp add: onConnect_def)

section \<open>Claims about the Selection Tracker and the guards of the mutation protocol\<close>

text \<open>
  Claim C3. The selection is \<^verbatim>\<open>selectedNodeId\<close>: \<open>None\<close> is Unselected, \<open>Some x\<close> is
  Selected(x). After a node click it is the clicked node's id, whatever it was before, so
  clicking \<open>a\<close> and then \<open>b\<close> leaves \<open>b\<close> selected; after a pane click it is \<open>None\<close>;
  and a drop that creates a node (a non-empty payload, and the flow instance set) returns a
  state in which the new node is appended and its id, the numeral of the counter, is
  selected. A drop with an empty payload changes nothing, and a drop before the instance
  is set throws.
\<close>

theorem selection_transitions:
  "selectedNodeId (onNodeClick n s) = Some (node_id n) \<and>
   selectedNodeId (onNodeClick b (onNodeClick a s)) = Some (node_id b) \<and>
   selectedNodeId (onPaneClick s) = None \<and>
   (payload ev \<noteq> [] \<and> reactFlowInstance s \<noteq> None \<longrightarrow>
      (\<exists>s' newNode. onDrop ev s = Inr s' \<and> nodes s' = nodes s @ [newNode] \<and>
         node_id newNode = dec (id_counter s) \<and>
         selectedNodeId s' = Some (node_id newNode))) \<and>
   (payload ev = [] \<longrightarrow> onDrop ev s = Inr s) \<and>
   (payload ev \<noteq> [] \<and> reactFlowInstance s = None \<longrightarrow> onDrop ev s = Inl TypeError)"
  by (auto simp: onNodeClick_def onPaneClick_def onDrop_def getId_def)

theorem selection_transitions_witness:
  "selectedNodeId (onNodeClick (nodes demo_state ! 0) demo_state) = Some ''1'' \<and>
   selectedNodeId (onNodeClick (nodes demo_state ! 1)
      (onNodeClick (nodes demo_state ! 0) demo_state)) = Some ''2'' \<and>
   selectedNodeId (onPaneClick demo_state) = None \<and>
   (case onDrop \<lparr>payload = ''Asset'', clientX = 5, clientY = 7\<rparr> demo_state of
      Inl err \<Rightarrow> None | Inr s' \<Rightarrow> selectedNodeId s') = Some ''3''"
proof -
  let ?ev = "\<lparr>payload = ''Asset'', clientX = 5, clientY = 7\<rparr>"
  have pre: "payload ?ev \<noteq> [] \<and> reactFlowInstance demo_state \<noteq> None"
    by (simp add: demo_state_def)
  have ids: "node_id (nodes demo_state ! 0) = ''1''" "node_id (nodes demo_state ! 1) = ''2''"
    "dec (id_counter demo_state) = ''3''"
    by (simp_all add: demo_state_def initialNodes_def)
  note step = selection_transitions [of "nodes demo_state ! 0" demo_state "nodes demo_state ! 1"
      "nodes demo_state ! 0" ?ev]
  from step have clicks:
    "selectedNodeId (onNodeClick (nodes demo_state ! 0) demo_state)
       = Some (node_id (nodes demo_state ! 0))"
    "selectedNodeId (onNodeClick (nodes demo_state ! 1)
       (onNodeClick (nodes demo_state ! 0) demo_state)) = Some (node_id (nodes demo_state ! 1))"
    "selectedNodeId (onPaneClick demo_state) = None"
    by simp_all
  from step pre have "\<exists>s' newNode. onDrop ?ev demo_state = Inr s' \<and>
      nodes s' = nodes demo_state @ [newNode] \<and>
      node_id newNode = dec (id_counter demo_state) \<and>
      selectedNodeId s' = Some (node_id newNode)"
    by simp
  then obtain s' and newNode :: node where
    "onDrop ?ev demo_state = Inr s'" "node_id newNode = dec (id_counter demo_state)"
    "selectedNodeId s' = Some (node_id newNode)"
    by blast
  with clicks show ?thesis by (simp add: ids del: One_nat_def)
qed

text \<open>
  Claim C4. When nothing is selected (\<^verbatim>\<open>selectedNodeId\<close> is \<^verbatim>\<open>null\<close>), each of
  Rename, AddField, UpdateField and RemoveField returns the state it was given: nodes,
  edges and everything else are unchanged. The three field operations stop at their guard
  \<^verbatim>\<open>if (!selectedNode) return\<close>; Rename has no guard and calls \<^verbatim>\<open>updateNodeData(null, ...)\<close>,
  which matches no node.
\<close>

theorem unselected_mutations_noop:
  assumes "selectedNodeId s = None"
  shows "onNameChange newName s = s \<and> onAddField s = Inr s \<and>
         onUpdateField index key val s = Inr s \<and> onRemoveField index s = Inr s"
proof -
  have "\<forall>n \<in> set (nodes s). Some (node_id n) \<noteq> selectedNodeId s"
    using assms by simp
  then have "onNameChange newName s = s"
    unfolding onNameChange_def by (rule updateNodeData_no_match)
  moreover have "selectedNode s = None"
    using assms by (rule selectedNode_unselected)
  ultimately show ?thesis
    by (simp add: onAddField_def onUpdateField_def onRemoveField_def)
qed

theorem unselected_mutations_noop_witness:
  "selectedNodeId (onPaneClick demo_state) = None \<and>
   onNameChange ''Car'' (onPaneClick demo_state) = onPaneClick demo_state \<and>
   onAddField (onPaneClick demo_state) = Inr (onPaneClick demo_state) \<and>
   onUpdateField 0 ''name'' ''age'' (onPaneClick demo_state) = Inr (onPaneClick demo_state) \<and>
   onRemoveField 0 (onPaneClick demo_state) = Inr (onPaneClick demo_state)"
proof -
  have h: "selectedNodeId (onPaneClick demo_state) = None"
    by (simp add: onPaneClick_def)
  from h unselected_mutations_noop [OF h, of "''Car''" 0 "''name''" "''age''"]
  show ?thesis by simp
qed

section \<open>Claims about the field operations\<close>

lemma spread_array_length [simp]: "length (spread_array xs) = length xs"
  by (simp add: spread_array_def)

lemma spread_array_dense: "\<forall>e \<in> set xs. \<not> is_hole e \<Longrightarrow> spread_array xs = xs"
  by (simp add: spread_array_def map_idI)

lemma spread_array_no_hole: "e \<in> set (spread_array xs) \<Longrightarrow> \<not> is_hole e"
  by (auto simp: spread_array_def)

lemma spread_array_idem [simp]: "spread_array (spread_array xs) = spread_array xs"
  by (rule spread_array_dense) (auto dest: spread_array_no_hole)

lemma spread_array_append [simp]:
  "spread_array (xs @ ys) = spread_array xs @ spread_array ys"
  by (simp add: spread_array_def)






subsection \<open>Every state the interface reaches has dense field arrays\<close>

lemma filter_from_dense: "list_all (\<lambda>e. \<not> is_hole e) (filter_from k p xs)"
  by (induction xs arbitrary: k) simp_all

lemma spread_array_list_all: "list_all (\<lambda>e. \<not> is_hole e) (spread_array xs)"
  by (auto simp: spread_array_def list_all_iff)

lemma list_update_dense:
  "list_all (\<lambda>e. \<not> is_hole e) xs \<Longrightarrow> \<not> is_hole v \<Longrightarrow> list_all (\<lambda>e. \<not> is_hole e) (xs[i := v])"
  by (auto simp: list_all_iff dest: set_update_subset_insert [THEN subsetD])

lemma dense_node_label:
  "dense_node n \<Longrightarrow> dense_node (updateNode x [''label'' \<mapsto> v] n)"
  by (simp add: dense_node_def updateNode_def get_prop_def)

lemma dense_node_fields:
  "dense_node n \<Longrightarrow> list_all (\<lambda>e. \<not> is_hole e) ys \<Longrightarrow>
   dense_node (updateNode x [''fields'' \<mapsto> DArr ys] n)"
  by (simp add: dense_node_def updateNode_def get_prop_def)

lemma dense_fields_label:
  "dense_fields s \<Longrightarrow> dense_fields (updateNodeData x [''label'' \<mapsto> v] s)"
  by (simp add: dense_fields_def updateNodeData_def list_all_iff dense_node_label)

lemma dense_fields_fields:
  "dense_fields s \<Longrightarrow> list_all (\<lambda>e. \<not> is_hole e) ys \<Longrightarrow>
   dense_fields (updateNodeData x [''fields'' \<mapsto> DArr ys] s)"
  by (simp add: dense_fields_def updateNodeData_def list_all_iff dense_node_fields)

lemma dense_fields_selected:
  assumes "dense_fields s" and "selectedNode s = Some n"
  shows "\<exists>xs. get_prop (data n) ''fields'' = DArr xs \<and> list_all (\<lambda>e. \<not> is_hole e) xs"
proof -
  from assms(2) have "n \<in> set (nodes s)"
    by (auto simp: selectedNode_def find_Some_iff)
  with assms(1) have "dense_node n"
    by (simp add: dense_fields_def list_all_iff)
  then show ?thesis
    by (auto simp: dense_node_def split: dval.splits)
qed

lemma dense_fields_initial: "dense_fields initial_state"
  by (simp add: dense_fields_def dense_node_def initial_state_def initialNodes_def get_prop_def)

lemma dense_fields_onDrop: "dense_fields s \<Longrightarrow> dense_fields (after s (onDrop ev s))"
  by (auto simp: after_def onDrop_def getId_def dense_fields_def dense_node_def get_prop_def
      split: option.splits)

lemma dense_fields_onAddField:
  assumes "dense_fields s"
  shows "dense_fields (after s (onAddField s))"
proof (cases "selectedNode s")
  case None
  with assms show ?thesis by (simp add: after_def onAddField_def)
next
  case (Some n)
  with assms obtain xs where xs: "get_prop (data n) ''fields'' = DArr xs"
    by (blast dest: dense_fields_selected)
  have "list_all (\<lambda>e. \<not> is_hole e) (spread_array xs @ [newProp])"
    by (simp add: spread_array_list_all newProp_def)
  with assms have "dense_fields (updateNodeData (selectedNodeId s)
      [''fields'' \<mapsto> DArr (spread_array xs @ [newProp])] s)"
    by (rule dense_fields_fields)
  with Some xs show ?thesis by (simp add: after_def onAddField_def)
qed

lemma dense_fields_onUpdateField:
  assumes "dense_fields s" and "row_rendered s i"
  shows "dense_fields (after s (onUpdateField i k v s))"
proof -
  from assms(2) obtain n where n: "selectedNode s = Some n"
    by (auto simp: row_rendered_def selected_fields_def split: option.splits)
  with assms(1) obtain xs where xs: "get_prop (data n) ''fields'' = DArr xs"
    by (blast dest: dense_fields_selected)
  with n assms(2) have i: "i < length xs"
    by (simp add: row_rendered_def selected_fields_def)
  let ?v = "Obj ((spread_obj (array_get (spread_array xs) i))(k \<mapsto> v))"
  have "list_all (\<lambda>e. \<not> is_hole e) ((spread_array xs)[i := ?v])"
    by (rule list_update_dense) (simp_all add: spread_array_list_all)
  with assms(1) have "dense_fields (updateNodeData (selectedNodeId s)
      [''fields'' \<mapsto> DArr ((spread_array xs)[i := ?v])] s)"
    by (rule dense_fields_fields)
  with n xs i show ?thesis by (simp add: after_def onUpdateField_def array_set_def)
qed

lemma dense_fields_onRemoveField:
  assumes "dense_fields s"
  shows "dense_fields (after s (onRemoveField i s))"
proof (cases "selectedNode s")
  case None
  with assms show ?thesis by (simp add: after_def onRemoveField_def)
next
  case (Some n)
  with assms obtain xs where xs: "get_prop (data n) ''fields'' = DArr xs"
    by (blast dest: dense_fields_selected)
  have "list_all (\<lambda>e. \<not> is_hole e) (array_filter (\<lambda>j. j \<noteq> i) xs)"
    by (simp add: array_filter_def filter_from_dense)
  with assms have "dense_fields (updateNodeData (selectedNodeId s)
      [''fields'' \<mapsto> DArr (array_filter (\<lambda>j. j \<noteq> i) xs)] s)"
    by (rule dense_fields_fields)
  with Some xs show ?thesis by (simp add: after_def onRemoveField_def)
qed

lemma dense_fields_ui_step:
  "dense_fields s \<Longrightarrow> ui_step addEdge e s = Some s' \<Longrightarrow> dense_fields s'"
proof (cases e)
  case (Init inst)
  then show "dense_fields s \<Longrightarrow> ui_step addEdge e s = Some s' \<Longrightarrow> dense_fields s'"
    by (auto simp: onInit_def dense_fields_def)
next
  case (Connect params)
  then show "dense_fields s \<Longrightarrow> ui_step addEdge e s = Some s' \<Longrightarrow> dense_fields s'"
    by (auto simp: onConnect_def dense_fields_def)
next
  case (Drop ev)
  then show "dense_fields s \<Longrightarrow> ui_step addEdge e s = Some s' \<Longrightarrow> dense_fields s'"
    by (auto simp: dense_fields_onDrop)
next
  case (NodeClick k)
  then show "dense_fields s \<Longrightarrow> ui_step addEdge e s = Some s' \<Longrightarrow> dense_fields s'"
    by (auto simp: onNodeClick_def dense_fields_def split: if_splits)
next
  case PaneClick
  then show "dense_fields s \<Longrightarrow> ui_step addEdge e s = Some s' \<Longrightarrow> dense_fields s'"
    by (auto simp: onPaneClick_def dense_fields_def)
next
  case (NameChange newName)
  then show "dense_fields s \<Longrightarrow> ui_step addEdge e s = Some s' \<Longrightarrow> dense_fields s'"
    by (auto simp: onNameChange_def dense_fields_label split: option.splits)
next
  case AddField
  then show "dense_fields s \<Longrightarrow> ui_step addEdge e s = Some s' \<Longrightarrow> dense_fields s'"
    by (auto simp: dense_fields_onAddField split: option.splits)
next
  case (UpdateField i k v)
  then show "dense_fields s \<Longrightarrow> ui_step addEdge e s = Some s' \<Longrightarrow> dense_fields s'"
    by (auto simp: dense_fields_onUpdateField split: if_splits)
next
  case (RemoveField i)
  then show "dense_fields s \<Longrightarrow> ui_step addEdge e s = Some s' \<Longrightarrow> dense_fields s'"
    by (auto simp: dense_fields_onRemoveField split: if_splits)
qed

lemma dense_fields_ui_run:
  "dense_fields s \<Longrightarrow> ui_run addEdge evs s = Some s' \<Longrightarrow> dense_fields s'"
  by (induction evs arbitrary: s) (auto split: option.splits dest: dense_fields_ui_step)

lemma ui_reached_dense:
  assumes "ui_run addEdge evs initial_state = Some s"
    and "selected_fields s = Some (DArr xs)"
  shows "\<forall>e \<in> set xs. \<not> is_hole e"
proof -
  from assms(1) have "dense_fields s"
    by (rule dense_fields_ui_run [OF dense_fields_initial])
  moreover from assms(2) obtain n where "selectedNode s = Some n"
    "get_prop (data n) ''fields'' = DArr xs"
    by (auto dest: selected_fields_D)
  ultimately show ?thesis
    by (auto dest!: dense_fields_selected simp: list_all_iff)
qed

text \<open>
  The interface never reaches the sparse state. (React Flow's own node changes, applied by
  the library's \<^verbatim>\<open>onNodesChange\<close>, move, select or delete nodes and do not write
  \<^verbatim>\<open>data\<close>; \<open>onRemoveField_dense\<close> above holds in any state, reached or not, whose selected
  field sequence has no empty slot.)
\<close>

lemma sparse_state_not_reached: "ui_run addEdge evs initial_state \<noteq> Some sparse_state"
proof
  assume "ui_run addEdge evs initial_state = Some sparse_state"
  from ui_reached_dense [OF this selected_fields_sparse_state] show False by simp
qed







text \<open>
  Claim C10, as amended. When a node is selected, its field sequence \<open>xs\<close> has length
  \<open>n\<close> and \<open>n \<le> i < 2\<^sup>3\<^sup>2 - 1\<close>, \<^verbatim>\<open>onUpdateField(i, k, v)\<close> does not throw and does
  not return the state it was given: the selected node's field sequence becomes the
  spread copy of \<open>xs\<close>, then \<open>i - n\<close> empty slots, then the object \<^verbatim>\<open>{ [k]: v }\<close> with the
  single attribute \<open>k\<close>. Its length is \<open>i + 1\<close> and the object sits at index \<open>i\<close>.
\<close>

theorem onUpdateField_out_of_bounds:
  assumes "selected_fields s = Some (DArr xs)" and "length xs \<le> i"
    and "i < array_index_limit"
  shows "\<exists>s'. onUpdateField i k v s = Inr s' \<and> s' \<noteq> s \<and>
     selected_fields s' =
       Some (DArr (spread_array xs @ replicate (i - length xs) Hole @ [Obj [k \<mapsto> v]])) \<and>
     length (spread_array xs @ replicate (i - length xs) Hole @ [Obj [k \<mapsto> v]]) = i + 1 \<and>
     (spread_array xs @ replicate (i - length xs) Hole @ [Obj [k \<mapsto> v]]) ! i = Obj [k \<mapsto> v]"
proof -
  from assms(1) obtain n where n: "selectedNode s = Some n" "get_prop (data n) ''fields'' = DArr xs"
    by (auto dest: selected_fields_D)
  let ?ys = "spread_array xs @ replicate (i - length xs) Hole @ [Obj [k \<mapsto> v]]"
  let ?s' = "updateNodeData (selectedNodeId s) [''fields'' \<mapsto> DArr ?ys] s"
  have 1: "onUpdateField i k v s = Inr ?s'"
    using n assms(2,3) by (simp add: onUpdateField_def array_set_def array_get_def)
  have 2: "selected_fields ?s' = Some (DArr ?ys)"
    using n(1) by (rule selected_fields_update)
  have 3: "length ?ys = i + 1"
    using assms(2) by simp
  have 4: "?ys ! i = Obj [k \<mapsto> v]"
    using assms(2) by (simp add: nth_append)
  have "?ys \<noteq> xs"
  proof
    assume "?ys = xs"
    then have "length ?ys = length xs" by (rule arg_cong)
    with 3 assms(2) show False by linarith
  qed
  then have "selected_fields ?s' \<noteq> selected_fields s"
    unfolding 2 assms(1) by simp
  then have 5: "?s' \<noteq> s" by auto
  from 1 2 3 4 5 show ?thesis by blast
qed

theorem onUpdateField_out_of_bounds_witness:
  "selected_fields demo_state = Some (DArr []) \<and>
   (case onUpdateField 1 ''name'' ''x'' demo_state of Inl err \<Rightarrow> None
    | Inr s' \<Rightarrow> selected_fields s') = Some (DArr [Hole, Obj [''name'' \<mapsto> ''x'']])"
proof -
  have bound: "length ([] :: slot list) \<le> 1" "1 < array_index_limit"
    by (simp_all add: array_index_limit_def)
  from onUpdateField_out_of_bounds [OF selected_fields_demo_state bound, of "''name''" "''x''"]
  obtain s' where "onUpdateField 1 ''name'' ''x'' demo_state = Inr s'"
    "selected_fields s' =
       Some (DArr (spread_array [] @ replicate (1 - length ([] :: slot list)) Hole @
                   [Obj [''name'' \<mapsto> ''x'']]))"
    by blast
  with selected_fields_demo_state show ?thesis by (simp add: spread_array_def)
qed

text \<open>
  The claim as stated, for every \<open>i \<ge> n\<close>, fails from \<open>i = 2\<^sup>3\<^sup>2 - 1\<close> on: 4294967295
  is not an array index, so \<^verbatim>\<open>newFields[4294967295] = ...\<close> adds an ordinary property to
  the copy. On the selected node of \<open>demo_state\<close>, whose field sequence is empty, the field
  sequence after \<^verbatim>\<open>onUpdateField(4294967295, 'name', 'x')\<close> still has length 0, not
  4294967296, and no element at any index.
\<close>

theorem onUpdateField_not_an_index_counterexample:
  "selected_fields demo_state = Some (DArr []) \<and>
   (case onUpdateField 4294967295 ''name'' ''x'' demo_state of Inl err \<Rightarrow> None
    | Inr s' \<Rightarrow> selected_fields s')
     = Some (DArrProps [] [4294967295 \<mapsto> Obj [''name'' \<mapsto> ''x'']]) \<and>
   length ([] :: slot list) \<noteq> 4294967295 + 1"
proof -
  let ?v = "DArrProps [] [4294967295 \<mapsto> Obj [''name'' \<mapsto> ''x'']]"
  from selected_fields_demo_state obtain n where n: "selectedNode demo_state = Some n"
    "get_prop (data n) ''fields'' = DArr []"
    by (auto dest: selected_fields_D)
  have "onUpdateField 4294967295 ''name'' ''x'' demo_state =
      Inr (updateNodeData (selectedNodeId demo_state) [''fields'' \<mapsto> ?v] demo_state)"
    using n
    by (simp add: onUpdateField_def array_set_def array_get_def spread_array_def
        array_index_limit_def)
  moreover have "selected_fields
      (updateNodeData (selectedNodeId demo_state) [''fields'' \<mapsto> ?v] demo_state) = Some ?v"
    using n(1) by (rule selected_fields_update)
  ultimately show ?thesis using selected_fields_demo_state by simp
qed

section \<open>Claims about node identity\<close>

lemma updateNode_rest:
  "data (updateNode x d n) |` (- dom d) = data n |` (- dom d)"
  by (rule ext) (auto simp: updateNode_def restrict_map_def map_add_def split: option.splits)

lemma updateNodeData_identities:
  "identities (updateNodeData x d s) = identities s"
  by (simp add: updateNodeData_def)

lemma updateNodeData_rest_outside:
  "rest_outside (dom d) (updateNodeData x d s) = rest_outside (dom d) s"
  by (simp add: updateNodeData_def updateNode_rest)

lemma onAddField_shape:
  "onAddField s = Inr s' \<Longrightarrow>
   s' = s \<or> (\<exists>v. s' = updateNodeData (selectedNodeId s) [''fields'' \<mapsto> v] s)"
  by (auto simp: onAddField_def Let_def split: option.splits sum.splits)

lemma onUpdateField_shape:
  "onUpdateField index key val s = Inr s' \<Longrightarrow>
   s' = s \<or> (\<exists>v. s' = updateNodeData (selectedNodeId s) [''fields'' \<mapsto> v] s)"
  by (auto simp: onUpdateField_def split: option.splits sum.splits)

lemma onRemoveField_shape:
  "onRemoveField index s = Inr s' \<Longrightarrow>
   s' = s \<or> (\<exists>v. s' = updateNodeData (selectedNodeId s) [''fields'' \<mapsto> v] s)"
  by (auto simp: onRemoveField_def split: option.splits dval.splits)

lemma fields_update_preserves:
  assumes "s' = s \<or> (\<exists>v. s' = updateNodeData x [''fields'' \<mapsto> v] s)"
  shows "identities s' = identities s \<and> rest_outside {''fields''} s' = rest_outside {''fields''} s"
proof -
  have "rest_outside {''fields''} (updateNodeData x [''fields'' \<mapsto> v] s)
      = rest_outside {''fields''} s" for v
    using updateNodeData_rest_outside [of "[''fields'' \<mapsto> v]" x s] by simp
  with assms show ?thesis
    by (auto simp: updateNodeData_identities)
qed

text \<open>
  Claim C9. After \<^verbatim>\<open>updateNodeData\<close>, Rename, AddField, UpdateField or RemoveField,
  whichever node the call targets, the node collection lists the same ids and types in
  the same order as before. What can differ is inside \<^verbatim>\<open>data\<close> only: the keys given to
  \<^verbatim>\<open>updateNodeData\<close>, \<^verbatim>\<open>label\<close> for Rename, \<^verbatim>\<open>fields\<close> for the three field
  operations; the position and every other data key of every node are as before. (A
  handler that throws changes no state at all.)
\<close>

theorem identity_immutable:
  "identities (updateNodeData nodeId d s) = identities s \<and>
   rest_outside (dom d) (updateNodeData nodeId d s) = rest_outside (dom d) s \<and>
   identities (onNameChange newName s) = identities s \<and>
   rest_outside {''label''} (onNameChange newName s) = rest_outside {''label''} s \<and>
   (\<forall>s'. onAddField s = Inr s' \<or> onUpdateField index key val s = Inr s' \<or>
         onRemoveField index s = Inr s' \<longrightarrow>
      identities s' = identities s \<and>
      rest_outside {''fields''} s' = rest_outside {''fields''} s)"
proof -
  have "rest_outside {''label''} (onNameChange newName s) = rest_outside {''label''} s"
    using updateNodeData_rest_outside [of "[''label'' \<mapsto> DStr newName]" "selectedNodeId s" s]
    by (simp add: onNameChange_def)
  moreover have "identities (onNameChange newName s) = identities s"
    unfolding onNameChange_def by (rule updateNodeData_identities)
  moreover have "identities s' = identities s \<and>
      rest_outside {''fields''} s' = rest_outside {''fields''} s"
    if "onAddField s = Inr s' \<or> onUpdateField index key val s = Inr s' \<or>
        onRemoveField index s = Inr s'" for s'
    using that onAddField_shape [of s s'] onUpdateField_shape [of index key val s s']
      onRemoveField_shape [of index s s']
    by (intro fields_update_preserves) blast
  ultimately show ?thesis
    using updateNodeData_identities [of nodeId d s] updateNodeData_rest_outside [of d nodeId s]
    by blast
qed

theorem identity_immutable_witness:
  "identities demo_state = [(''1'', ''concerto''), (''2'', ''concerto'')] \<and>
   identities (onNameChange ''Car'' demo_state) = [(''1'', ''concerto''), (''2'', ''concerto'')] \<and>
   (case onUpdateField 1 ''name'' ''x'' demo_state of Inl err \<Rightarrow> [] | Inr s' \<Rightarrow> identities s')
     = [(''1'', ''concerto''), (''2'', ''concerto'')]"
proof -
  have ids: "identities demo_state = [(''1'', ''concerto''), (''2'', ''concerto'')]"
    by (simp add: demo_state_def initialNodes_def)
  from identity_immutable [of "Some ''2''" Map.empty demo_state "''Car''" 1 "''name''" "''x''"]
  have "identities (onNameChange ''Car'' demo_state) = identities demo_state"
    and "\<forall>s'. onAddField demo_state = Inr s' \<or>
            onUpdateField 1 ''name'' ''x'' demo_state = Inr s' \<or>
            onRemoveField 1 demo_state = Inr s' \<longrightarrow>
          identities s' = identities demo_state \<and>
          rest_outside {''fields''} s' = rest_outside {''fields''} demo_state"
    by blast+
  with sparse_state_reached ids show ?thesis by simp
qed

section \<open>Claims about the Identity Generator\<close>

lemma digit_val_digit_char: "d < 10 \<Longrightarrow> digit_val (digit_char d) = d"
  by (simp add: digit_val_def digit_char_def)

lemma parse_dec_snoc: "parse_dec (cs @ [ch]) = 10 * parse_dec cs + digit_val ch"
  by (simp add: parse_dec_def)

lemma parse_dec_dec: "parse_dec (dec n) = n"
proof (induction n rule: dec.induct)
  case (1 n)
  show ?case
  proof (cases "n < 10")
    case True
    then show ?thesis
      by (subst dec.simps) (simp add: parse_dec_def digit_val_digit_char)
  next
    case False
    with 1 show ?thesis
      by (subst dec.simps) (simp add: parse_dec_snoc digit_val_digit_char)
  qed
qed

lemma inj_dec: "inj dec"
  by (rule inj_on_inverseI [where g = parse_dec]) (rule parse_dec_dec)

lemma getIds_Suc: "getIds (Suc n) c = dec c # getIds n (number_succ c)"
  by (simp add: getId_def)

lemma upt_head: "[c..<c + Suc n] = c # [c + 1..<c + 1 + n]"
  by (simp add: upt_conv_Cons del: upt_Suc)

lemma getIds_step:
  "c \<le> MAX_SAFE_INTEGER \<Longrightarrow> getIds (Suc n) c = dec c # getIds n (c + 1)"
  by (simp add: getId_def number_succ_safe)

lemma getIds_exact:
  "c + n \<le> MAX_SAFE_INTEGER + 2 \<Longrightarrow> getIds n c = map dec [c..<c + n]"
proof (induction n arbitrary: c)
  case 0
  then show ?case by simp
next
  case (Suc n)
  show ?case
  proof (cases n)
    case 0
    then show ?thesis by (simp add: getId_def)
  next
    case (Suc m)
    with Suc.prems have c: "c \<le> MAX_SAFE_INTEGER" by simp
    from Suc.prems have "getIds n (c + 1) = map dec [c + 1..<c + 1 + n]"
      by (intro Suc.IH) simp
    with c show ?thesis
      by (simp only: getIds_step upt_head list.map)
  qed
qed

lemma getIds_saturated:
  "c + n = MAX_SAFE_INTEGER + 1 \<Longrightarrow>
   getIds (Suc (Suc n)) c = map dec [c..<c + Suc n] @ [dec (MAX_SAFE_INTEGER + 1)]"
proof (induction n arbitrary: c)
  case 0
  then show ?case by (simp add: getId_def number_succ_def)
next
  case (Suc n)
  from Suc.prems have c: "c \<le> MAX_SAFE_INTEGER" by simp
  from Suc.prems have "getIds (Suc (Suc n)) (c + 1)
      = map dec [c + 1..<c + 1 + Suc n] @ [dec (MAX_SAFE_INTEGER + 1)]"
    by (intro Suc.IH) simp
  with c show ?case
    by (simp only: getIds_step [of c "Suc (Suc n)"] upt_head [of c "Suc n"] list.map append_Cons)
qed

text \<open>
  The ids after a sequence of drops: the ids before, followed by what \<^verbatim>\<open>getId\<close> returned
  for the drops that created a node (those with a payload, when the flow instance is set).
\<close>

lemma drops_ids:
  "map node_id (nodes (drops evs s)) =
   map node_id (nodes s) @
   getIds (if reactFlowInstance s = None then 0 else length (filter (\<lambda>e. payload e \<noteq> []) evs))
     (id_counter s)"
proof (induction evs arbitrary: s)
  case Nil
  then show ?case by simp
next
  case (Cons e es)
  show ?case
  proof (cases "payload e = []")
    case True
    then have "onDrop e s = Inr s" by (simp add: onDrop_def)
    with True Cons.IH [of s] show ?thesis by simp
  next
    case False
    show ?thesis
    proof (cases "reactFlowInstance s")
      case None
      with False have "onDrop e s = Inl TypeError" by (simp add: onDrop_def)
      with None Cons.IH [of s] show ?thesis by simp
    next
      case (Some f)
      let ?n = "\<lparr>node_id = dec (id_counter s), node_type = ''concerto'',
                 position = f \<lparr>pos_x = clientX e, pos_y = clientY e\<rparr>,
                 data = [''label'' \<mapsto> DStr (''New '' @ payload e), ''fields'' \<mapsto> DArr []]\<rparr>"
      let ?s' = "s\<lparr>nodes := nodes s @ [?n], selectedNodeId := Some (dec (id_counter s)),
                   id_counter := number_succ (id_counter s)\<rparr>"
      from False Some have "onDrop e s = Inr ?s'"
        by (simp add: onDrop_def getId_def)
      with False Some Cons.IH [of ?s'] show ?thesis
        by (simp add: getIds_Suc del: getIds.simps)
    qed
  qed
qed

lemma distinct_map_dec: "distinct (map dec ks) = distinct ks"
  by (simp add: distinct_map inj_on_subset [OF inj_dec])

lemma not_distinct_snoc: "x \<in> set xs \<Longrightarrow> \<not> distinct (xs @ [x])"
  by simp

lemma one_le_MAX_SAFE_INTEGER: "1 \<le> MAX_SAFE_INTEGER"
  by (simp add: MAX_SAFE_INTEGER_def)

text \<open>
  Claim C5, as amended. Over the first \<open>n\<close> calls of \<^verbatim>\<open>getId\<close> after start-up, for any
  \<open>n \<le> 2\<^sup>5\<^sup>3 - 1\<close>, the returned strings are pairwise distinct and, read as integers, are
  \<open>2, 3, ..., n + 1\<close>: strictly increasing from 2. Consequently, starting from the initial
  state (the seed node "1", with or without the flow instance set), after any sequence of
  drop events of which at most \<open>2\<^sup>5\<^sup>3 - 1\<close> carry a payload, all node ids are pairwise
  distinct.
\<close>

theorem getId_distinct_increasing:
  assumes "n \<le> MAX_SAFE_INTEGER"
    and "length (filter (\<lambda>e. payload e \<noteq> []) evs) \<le> MAX_SAFE_INTEGER"
  shows "distinct (getIds n (id_counter initial_state)) \<and>
         map parse_dec (getIds n (id_counter initial_state)) = [2..<2 + n] \<and>
         distinct (map node_id (nodes (drops evs (initial_state\<lparr>reactFlowInstance := inst\<rparr>))))"
proof -
  let ?s = "initial_state\<lparr>reactFlowInstance := inst\<rparr>"
  have start: "id_counter initial_state = 2" "id_counter ?s = 2"
    by (simp_all add: initial_state_def)
  from assms(1) have ids: "getIds n 2 = map dec [2..<2 + n]"
    by (intro getIds_exact) simp
  have 1: "distinct (getIds n 2)"
    unfolding ids by (simp only: distinct_map_dec distinct_upt)
  have 2: "map parse_dec (getIds n 2) = [2..<2 + n]"
    unfolding ids by (simp add: parse_dec_dec comp_def)
  define m where "m = (if reactFlowInstance ?s = None then 0
                       else length (filter (\<lambda>e. payload e \<noteq> []) evs))"
  have "m \<le> length (filter (\<lambda>e. payload e \<noteq> []) evs)" by (simp add: m_def)
  with assms(2) have "getIds m 2 = map dec [2..<2 + m]"
    by (intro getIds_exact) simp
  moreover have "map node_id (nodes (drops evs ?s)) = map node_id (nodes ?s) @ getIds m 2"
    using drops_ids [of evs ?s] by (simp only: m_def start(2))
  moreover have "map node_id (nodes ?s) = [dec 1]"
    by (simp add: initial_state_def initialNodes_def del: One_nat_def)
  ultimately have "map node_id (nodes (drops evs ?s)) = map dec (1 # [2..<2 + m])"
    by (simp only: list.map append_Cons append_Nil)
  moreover have "distinct (1 # [2..<2 + m])" by simp
  ultimately have 3: "distinct (map node_id (nodes (drops evs ?s)))"
    by (simp only: distinct_map_dec)
  from 1 2 3 show ?thesis by (simp only: start(1) simp_thms)
qed

theorem getId_distinct_increasing_witness:
  "getIds 3 (id_counter initial_state) = [''2'', ''3'', ''4''] \<and>
   distinct (getIds 3 (id_counter initial_state)) \<and>
   map node_id (nodes (drops
      [\<lparr>payload = ''Concept'', clientX = 100, clientY = 100\<rparr>,
       \<lparr>payload = [], clientX = 0, clientY = 0\<rparr>,
       \<lparr>payload = ''Enum'', clientX = 30, clientY = 40\<rparr>]
      (initial_state\<lparr>reactFlowInstance := Some (\<lambda>p. p)\<rparr>))) = [''1'', ''2'', ''3''] \<and>
   distinct (map node_id (nodes (drops
      [\<lparr>payload = ''Concept'', clientX = 100, clientY = 100\<rparr>,
       \<lparr>payload = [], clientX = 0, clientY = 0\<rparr>,
       \<lparr>payload = ''Enum'', clientX = 30, clientY = 40\<rparr>]
      (initial_state\<lparr>reactFlowInstance := Some (\<lambda>p. p)\<rparr>))))"
proof -
  let ?evs = "[\<lparr>payload = ''Concept'', clientX = 100, clientY = 100\<rparr>,
               \<lparr>payload = [], clientX = 0, clientY = 0\<rparr>,
               \<lparr>payload = ''Enum'', clientX = 30, clientY = 40\<rparr>]"
  let ?s = "initial_state\<lparr>reactFlowInstance := Some (\<lambda>p. p)\<rparr>"
  have h: "3 \<le> MAX_SAFE_INTEGER"
    "length (filter (\<lambda>e. payload e \<noteq> []) ?evs) \<le> MAX_SAFE_INTEGER"
    by (simp_all add: MAX_SAFE_INTEGER_def)
  have "getIds 3 2 = getIds (Suc (Suc (Suc 0))) 2"
    by (simp only: numeral_3_eq_3)
  then have calls: "getIds 3 (id_counter initial_state) = [''2'', ''3'', ''4'']"
    by (simp add: getId_def number_succ_safe initial_state_def)
  have run: "map node_id (nodes (drops ?evs ?s)) = [''1'', ''2'', ''3'']"
    by (simp add: onDrop_def initial_state_def initialNodes_def getId_def number_succ_safe)
  from getId_distinct_increasing [OF h, of "Some (\<lambda>p. p)"] calls run show ?thesis by simp
qed

text \<open>
  The claim as stated, for any sequence of calls, fails on a long enough one: the counter
  is a double, \<^verbatim>\<open>id++\<close> no longer changes it once it is \<open>2\<^sup>5\<^sup>3\<close>, and call number
  \<open>2\<^sup>5\<^sup>3\<close> returns \<^verbatim>\<open>"9007199254740992"\<close> as call number \<open>2\<^sup>5\<^sup>3 - 1\<close> did.
\<close>

theorem getId_repeats_counterexample:
  "\<not> distinct (getIds (2 ^ 53) (id_counter initial_state))"
proof -
  let ?M = MAX_SAFE_INTEGER
  note ge = one_le_MAX_SAFE_INTEGER
  have calls: "getIds (Suc (Suc (?M - 1))) 2 = map dec [2..<2 + Suc (?M - 1)] @ [dec (?M + 1)]"
    by (rule getIds_saturated) (use ge in simp)
  have "?M + 1 \<in> set [2..<2 + Suc (?M - 1)]"
    using ge by simp
  then have "dec (?M + 1) \<in> set (map dec [2..<2 + Suc (?M - 1)])"
    by (simp only: set_map image_eqI)
  then have "\<not> distinct (map dec [2..<2 + Suc (?M - 1)] @ [dec (?M + 1)])"
    by (rule not_distinct_snoc)
  then have "\<not> distinct (getIds (Suc (Suc (?M - 1))) 2)"
    unfolding calls .
  moreover have "Suc (Suc (?M - 1)) = 2 ^ 53"
    by (simp add: MAX_SAFE_INTEGER_def)
  ultimately have "\<not> distinct (getIds (2 ^ 53) 2)"
    by (rule subst [where P = "\<lambda>k. \<not> distinct (getIds k 2)", rotated])
  moreover have "id_counter initial_state = 2"
    by (simp add: initial_state_def)
  ultimately show ?thesis by (simp only: simp_thms)
qed

end
